theory Spec2Isabelle
  imports Complex_Main
begin

section \<open>Quantum network parameters\<close>

text \<open>
  The class \<open>QuantumNetwork\<close> of \<open>src/main/app.py\<close> holds fourteen physical
  constants as attributes. Python floats are modelled as real numbers: the formulas are
  the source's, the rounding of IEEE arithmetic is not part of the model.
\<close>

record QuantumNetwork =
  p_ht :: real
  v_h :: real
  v_t :: real
  v_o :: real
  v_a :: real
  L0 :: real
  c_f :: real
  tau_p :: real
  tau_h :: real
  tau_t :: real
  tau_d :: real
  tau_o :: real
  tau_a :: real
  T_ch :: real

text \<open>The values that \<open>__init__\<close> assigns (lines 11 to 24).\<close>

definition QuantumNetwork_init :: QuantumNetwork where
  "QuantumNetwork_init =
     \<lparr> p_ht = 53 / 100, v_h = 8 / 10, v_t = 8 / 10, v_o = 39 / 100, v_a = 39 / 100,
       L0 = 22000, c_f = 200000000,
       tau_p = 59 / 10000000, tau_h = 20 / 1000000, tau_t = 10 / 1000000,
       tau_d = 100 / 1000000, tau_o = 10 / 1000000, tau_a = 10 / 1000000,
       T_ch = 10 / 1000 \<rparr>"

section \<open>Link entanglement rate\<close>

text \<open>
  The local variables of \<open>link_entanglement_rate\<close> (lines 29 to 47), one definition
  each, under the names the source gives them.
\<close>

definition p_ij :: "QuantumNetwork \<Rightarrow> real \<Rightarrow> real" where
  "p_ij net d_ij = 0.5 * v_o net * (p_ht net * v_h net * v_t net)\<^sup>2 * exp (- d_ij / L0 net)"

definition tau_ij :: "QuantumNetwork \<Rightarrow> real \<Rightarrow> real" where
  "tau_ij net d_ij =
     tau_t net + (d_ij / (2 * c_f net)) + tau_o net + (d_ij / (2 * c_f net))"

definition T_ij_s :: "QuantumNetwork \<Rightarrow> real \<Rightarrow> real" where
  "T_ij_s net d_ij = tau_p net + max (tau_h net) (tau_ij net d_ij)"

definition T_ij_f :: "QuantumNetwork \<Rightarrow> real \<Rightarrow> real" where
  "T_ij_f net d_ij = tau_p net + max (max (tau_h net) (tau_ij net d_ij)) (tau_d net)"

definition T_ij :: "QuantumNetwork \<Rightarrow> real \<Rightarrow> real" where
  "T_ij net d_ij =
     ((1 - p_ij net d_ij) * T_ij_f net d_ij + p_ij net d_ij * T_ij_s net d_ij) / p_ij net d_ij"

definition link_entanglement_rate :: "QuantumNetwork \<Rightarrow> real \<Rightarrow> real" where
  "link_entanglement_rate net d_ij =
     (if T_ch net < tau_ij net d_ij then 0 else 1 / T_ij net d_ij)"


section \<open>Errors, lists and dictionaries\<close>

text \<open>
  The exceptions the modelled code can raise by itself: an index past the end of a list
  and a missing dictionary key. The distance graph is a dictionary of dictionaries.
\<close>

datatype py_error = IndexError | KeyError

type_synonym 'n distances = "'n \<rightharpoonup> ('n \<rightharpoonup> real)"

definition list_get :: "'a list \<Rightarrow> nat \<Rightarrow> py_error + 'a" where
  "list_get xs i = (if i < length xs then Inr (xs ! i) else Inl IndexError)"

definition dict_get :: "('k \<rightharpoonup> 'v) \<Rightarrow> 'k \<Rightarrow> py_error + 'v" where
  "dict_get m k = (case m k of None \<Rightarrow> Inl KeyError | Some v \<Rightarrow> Inr v)"

section \<open>End-to-end entanglement rate\<close>

text \<open>
  Line 55, \<open>d = distances[path[0]][path[1]]\<close>, in Python's evaluation order:
  \<open>path[0]\<close>, the outer lookup, \<open>path[1]\<close>, the inner lookup.
\<close>

definition direct_distance :: "'n list \<Rightarrow> 'n distances \<Rightarrow> py_error + real" where
  "direct_distance path distances =
     (case list_get path 0 of
        Inl e \<Rightarrow> Inl e
      | Inr a \<Rightarrow>
          (case dict_get distances a of
             Inl e \<Rightarrow> Inl e
           | Inr row \<Rightarrow>
               (case list_get path 1 of
                  Inl e \<Rightarrow> Inl e
                | Inr b \<Rightarrow> dict_get row b)))"

text \<open>Lines 68 to 84: what the recursive case computes from the rates of the two halves.\<close>

definition swap_rate :: "QuantumNetwork \<Rightarrow> real \<Rightarrow> real \<Rightarrow> real" where
  "swap_rate net rate_left rate_right =
     (if rate_left = 0 \<or> rate_right = 0 then 0
      else
        let T_left = 1 / rate_left;
            T_right = 1 / rate_right;
            T_swap = (max T_left T_right + tau_a net) / v_a net;
            tau_total = max T_left T_right + tau_a net
        in if T_ch net < tau_total then 0 else 1 / T_swap)"

text \<open>
  \<open>end_to_end_rate\<close> (lines 52 to 84). The recursion is not structural and, as the
  theorems below show, does not end, so the model carries the depth of recursion that is
  still available: \<open>None\<close> is the call that needs more frames than that (Python's
  RecursionError), \<open>Some (Inl e)\<close> a raised exception and \<open>Some (Inr r)\<close> a
  returned rate. The left half is evaluated before the right half.
\<close>

fun end_to_end_rate ::
  "nat \<Rightarrow> QuantumNetwork \<Rightarrow> 'n list \<Rightarrow> 'n distances \<Rightarrow> (py_error + real) option" where
  "end_to_end_rate 0 net path distances = None"
| "end_to_end_rate (Suc depth) net path distances =
     (if length path = 1 then
        (case direct_distance path distances of
           Inl e \<Rightarrow> Some (Inl e)
         | Inr d \<Rightarrow> Some (Inr (link_entanglement_rate net d)))
      else
        let k = length path div 2;
            left_path = take (k + 1) path;
            right_path = drop k path
        in case end_to_end_rate depth net left_path distances of
             None \<Rightarrow> None
           | Some (Inl e) \<Rightarrow> Some (Inl e)
           | Some (Inr rate_left) \<Rightarrow>
               (case end_to_end_rate depth net right_path distances of
                  None \<Rightarrow> None
                | Some (Inl e) \<Rightarrow> Some (Inl e)
                | Some (Inr rate_right) \<Rightarrow> Some (Inr (swap_rate net rate_left rate_right))))"

section \<open>Path enumeration\<close>

text \<open>
  \<open>enumerate_paths\<close> (lines 111 to 125). \<open>nodes\<close> is the collection the loop of
  line 120 iterates over, in its order; \<open>enumerate_neighbors\<close> is that loop, over the
  nodes still to be looked at, with \<open>visited\<close> the set after \<open>visited.add(src)\<close>.
  The optional argument \<open>visited\<close> is \<open>None\<close> at the outermost call and a copy of
  the caller's set in the recursive ones. \<open>distances[src]\<close> is only evaluated for a
  neighbor that is not visited, and raises KeyError when \<open>src\<close> has no row.
\<close>

function enumerate_paths ::
    "'n \<Rightarrow> 'n \<Rightarrow> 'n list \<Rightarrow> 'n distances \<Rightarrow> 'n set option \<Rightarrow> py_error + 'n list list"
  and enumerate_neighbors ::
    "'n \<Rightarrow> 'n \<Rightarrow> 'n list \<Rightarrow> 'n distances \<Rightarrow> 'n set \<Rightarrow> 'n list \<Rightarrow> py_error + 'n list list"
  where
  "enumerate_paths src dst nodes distances visited_arg =
     (let visited = insert src (case visited_arg of None \<Rightarrow> {} | Some s \<Rightarrow> s)
      in if src = dst then Inr [[dst]]
         else enumerate_neighbors src dst nodes distances visited nodes)"
| "enumerate_neighbors src dst nodes distances visited [] = Inr []"
| "enumerate_neighbors src dst nodes distances visited (neighbor # rest) =
     (if neighbor \<in> visited then enumerate_neighbors src dst nodes distances visited rest
      else
        case dict_get distances src of
          Inl e \<Rightarrow> Inl e
        | Inr row \<Rightarrow>
            (if row neighbor = None
             then enumerate_neighbors src dst nodes distances visited rest
             else
               case enumerate_paths neighbor dst nodes distances (Some visited) of
                 Inl e \<Rightarrow> Inl e
               | Inr subpaths \<Rightarrow>
                   (case enumerate_neighbors src dst nodes distances visited rest of
                      Inl e \<Rightarrow> Inl e
                    | Inr paths \<Rightarrow> Inr (map ((#) src) subpaths @ paths))))"
  by pat_completeness auto
termination
proof (relation "inv_image (less_than <*lex*> less_than)
   (\<lambda>x. case x of
      Inl (src, dst, nodes, distances, visited_arg) \<Rightarrow>
        (card (set nodes - insert src (case visited_arg of None \<Rightarrow> {} | Some s \<Rightarrow> s)),
         Suc (length nodes))
    | Inr (src, dst, nodes, distances, visited, rest) \<Rightarrow>
        (card ((set nodes \<union> set rest) - visited), length rest))", goal_cases)
  case 1
  show ?case by auto
next
  case (2 src dst nodes distances visited_arg x)
  then show ?case by (simp add: Un_absorb)
next
  case (3 src dst nodes distances visited neighbor rest)
  have "card ((set nodes \<union> set rest) - visited) \<le> card ((set nodes \<union> set (neighbor # rest)) - visited)"
    by (rule card_mono) auto
  then show ?case by auto
next
  case (4 src dst nodes distances visited neighbor rest x2)
  have "card ((set nodes \<union> set rest) - visited) \<le> card ((set nodes \<union> set (neighbor # rest)) - visited)"
    by (rule card_mono) auto
  then show ?case by auto
next
  case (5 src dst nodes distances visited neighbor rest x2)
  have "set nodes - insert neighbor visited \<subset> (set nodes \<union> set (neighbor # rest)) - visited"
    using 5(1) by auto
  then have "card (set nodes - insert neighbor visited) < card ((set nodes \<union> set (neighbor # rest)) - visited)"
    by (intro psubset_card_mono) auto
  then show ?case by simp
next
  case (6 src dst nodes distances visited neighbor rest x2 x2a)
  have "card ((set nodes \<union> set rest) - visited) \<le> card ((set nodes \<union> set (neighbor # rest)) - visited)"
    by (rule card_mono) auto
  then show ?case by auto
qed


section \<open>Optimal path selection\<close>

text \<open>
  \<open>find_optimal_path\<close> (lines 89 to 108): \<open>combinations2\<close> is
  \<open>itertools.combinations(nodes, 2)\<close>, \<open>all_paths\<close> the first loop, \<open>best_of\<close>
  the second one, whose state is the pair \<open>(best_path, best_rate)\<close>.
\<close>

fun combinations2 :: "'a list \<Rightarrow> ('a \<times> 'a) list" where
  "combinations2 [] = []"
| "combinations2 (x # xs) = map (Pair x) xs @ combinations2 xs"

fun all_paths :: "('n \<times> 'n) list \<Rightarrow> 'n list \<Rightarrow> 'n distances \<Rightarrow> py_error + 'n list list" where
  "all_paths [] nodes distances = Inr []"
| "all_paths ((src, dst) # pairs) nodes distances =
     (case enumerate_paths src dst nodes distances None of
        Inl e \<Rightarrow> Inl e
      | Inr paths \<Rightarrow>
          (case all_paths pairs nodes distances of
             Inl e \<Rightarrow> Inl e
           | Inr others \<Rightarrow> Inr (paths @ others)))"

fun best_of ::
  "nat \<Rightarrow> QuantumNetwork \<Rightarrow> 'n distances \<Rightarrow> 'n list list \<Rightarrow> 'n list option \<times> real \<Rightarrow>
     (py_error + 'n list option \<times> real) option" where
  "best_of depth network distances [] best = Some (Inr best)"
| "best_of depth network distances (path # paths) (best_path, best_rate) =
     (case end_to_end_rate depth network path distances of
        None \<Rightarrow> None
      | Some (Inl e) \<Rightarrow> Some (Inl e)
      | Some (Inr rate) \<Rightarrow>
          best_of depth network distances paths
            (if rate > best_rate then (Some path, rate) else (best_path, best_rate)))"

definition find_optimal_path ::
  "nat \<Rightarrow> QuantumNetwork \<Rightarrow> 'n list \<Rightarrow> 'n distances \<Rightarrow>
     (py_error + 'n list option \<times> real) option" where
  "find_optimal_path depth network nodes distances =
     (case all_paths (combinations2 nodes) nodes distances of
        Inl e \<Rightarrow> Some (Inl e)
      | Inr paths \<Rightarrow> best_of depth network distances paths (None, 0))"

text \<open>
  The unconditional equation of \<open>enumerate_paths\<close> is unfolded only where a proof asks
  for it.
\<close>

declare enumerate_paths.simps [simp del]

section \<open>The example topology\<close>

text \<open>The four nodes and the distance graph of the example run (lines 132 to 138).\<close>

definition example_nodes :: "string list" where
  "example_nodes = [''v1'', ''v2'', ''v3'', ''vj'']"

definition example_distances :: "string distances" where
  "example_distances =
     [''v1'' \<mapsto> [''v2'' \<mapsto> 5000],
      ''v2'' \<mapsto> [''v1'' \<mapsto> 5000, ''v3'' \<mapsto> 5000, ''vj'' \<mapsto> 10000],
      ''v3'' \<mapsto> [''v2'' \<mapsto> 5000, ''vj'' \<mapsto> 5000],
      ''vj'' \<mapsto> [''v2'' \<mapsto> 10000, ''v3'' \<mapsto> 5000]]"

section \<open>Paths of the distance graph\<close>

text \<open>
  The vocabulary of the properties: \<open>has_edge\<close> is the test of line 121,
  \<open>distances[a].get(b) is not None\<close>, for a node \<open>a\<close> that has a row;
  \<open>edges_ok\<close> says that every consecutive pair of a path has such an entry;
  \<open>simple_paths\<close> is the set of simple paths from \<open>src\<close> to \<open>dst\<close> whose nodes
  after the first are in \<open>nodes\<close> and outside \<open>avoid\<close>; \<open>via_paths\<close> are those
  that leave \<open>src\<close> through one of the neighbors in \<open>rest\<close>.
\<close>

definition has_edge :: "'n distances \<Rightarrow> 'n \<Rightarrow> 'n \<Rightarrow> bool" where
  "has_edge distances a b =
     (case distances a of None \<Rightarrow> False | Some row \<Rightarrow> row b \<noteq> None)"

fun edges_ok :: "'n distances \<Rightarrow> 'n list \<Rightarrow> bool" where
  "edges_ok distances (a # b # rest) = (has_edge distances a b \<and> edges_ok distances (b # rest))"
| "edges_ok distances path = True"

definition simple_paths :: "'n distances \<Rightarrow> 'n list \<Rightarrow> 'n set \<Rightarrow> 'n \<Rightarrow> 'n \<Rightarrow> 'n list set" where
  "simple_paths distances nodes avoid src dst =
     {p. p \<noteq> [] \<and> hd p = src \<and> last p = dst \<and> distinct p \<and>
         set (tl p) \<subseteq> set nodes \<and> set (tl p) \<inter> avoid = {} \<and> edges_ok distances p}"

definition via_paths :: "'n distances \<Rightarrow> 'n list \<Rightarrow> 'n set \<Rightarrow> 'n list \<Rightarrow> 'n \<Rightarrow> 'n \<Rightarrow> 'n list set" where
  "via_paths distances nodes visited rest src dst =
     {src # q | q nb. nb \<in> set rest \<and> nb \<notin> visited \<and> has_edge distances src nb \<and>
        q \<in> simple_paths distances nodes (insert nb visited) nb dst}"

section \<open>Properties of the link rate\<close>










text \<open>
  Claim C4, as the code has it: the round-trip signal time adds the travel time of half
  the distance, \<open>d / (2 * c_f)\<close>, once per direction, so that the two travel terms
  together are \<open>d / c_f\<close> (not \<open>d / c_f\<close> each).
\<close>

theorem tau_ij_half_distance_each_way:
  "tau_ij net d = tau_t net + d / (2 * c_f net) + tau_o net + d / (2 * c_f net) \<and>
   tau_ij net d = tau_t net + tau_o net + d / c_f net"
  by (simp add: tau_ij_def field_simps)

text \<open>
  Claim C4 as stated (a travel time of \<open>d / c_f\<close> per direction) fails with the default
  parameters at a distance of 5 km.
\<close>

theorem tau_ij_full_distance_counterexample:
  "tau_ij QuantumNetwork_init 5000 \<noteq>
     tau_t QuantumNetwork_init + 5000 / c_f QuantumNetwork_init +
     tau_o QuantumNetwork_init + 5000 / c_f QuantumNetwork_init"
  by (simp add: tau_ij_def QuantumNetwork_init_def)





section \<open>Properties of the end-to-end rate\<close>

text \<open>
  The base case of \<open>end_to_end_rate\<close> tests \<open>len(path) == 1\<close>. A path of any other
  length is split, and its left half \<open>path[:k+1]\<close> has a length other than 1 again (for
  two nodes it is the path itself), so the recursion goes on until the depth is used up.
  A path of one node reaches the base case, where \<open>path[1]\<close> does not exist.
\<close>

lemma e2e_not_single:
  "length path \<noteq> 1 \<Longrightarrow> end_to_end_rate depth net path distances = None"
proof (induction depth arbitrary: path)
  case 0
  show ?case by simp
next
  case (Suc depth)
  have "length (take (length path div 2 + 1) path) \<noteq> 1"
    using Suc.prems by (cases "length path = 0") auto
  then have "end_to_end_rate depth net (take (length path div 2 + 1) path) distances = None"
    by (rule Suc.IH)
  with Suc.prems show ?case by (simp add: Let_def)
qed

lemma e2e_single:
  assumes "length path = 1"
  shows "\<exists>e. end_to_end_rate (Suc depth) net path distances = Some (Inl e)"
proof -
  from assms obtain a where p: "path = [a]" by (cases path) auto
  show ?thesis
    by (simp add: p direct_distance_def list_get_def dict_get_def split: option.split)
qed

lemma e2e_never_returns: "end_to_end_rate depth net path distances \<noteq> Some (Inr r)"
proof (cases "length path = 1")
  case True
  show ?thesis
  proof (cases depth)
    case 0
    then show ?thesis by simp
  next
    case (Suc n)
    with e2e_single [OF True, of n net distances] show ?thesis by auto
  qed
next
  case False
  then show ?thesis by (simp add: e2e_not_single)
qed

text \<open>
  What lines 68 to 84 would make of the rates of the two halves, if the recursive calls
  returned them.
\<close>

lemma swap_rate_zero_half:
  "rate_left = 0 \<or> rate_right = 0 \<Longrightarrow> swap_rate net rate_left rate_right = 0"
  by (simp add: swap_rate_def)

lemma swap_rate_nonzero_halves:
  assumes "rate_left \<noteq> 0" and "rate_right \<noteq> 0"
  shows "swap_rate net rate_left rate_right =
     (if T_ch net < max (1 / rate_left) (1 / rate_right) + tau_a net then 0
      else 1 / ((max (1 / rate_left) (1 / rate_right) + tau_a net) / v_a net))"
  using assms by (simp add: swap_rate_def Let_def)

text \<open>
  Claim C1 says that a path of two nodes with a direct edge gets the link rate of that
  edge's distance. In the code the call never returns: for the edge from v1 to v2 of the
  example, whose distance is 5000, every recursion depth is used up.
\<close>

theorem end_to_end_rate_direct_link_diverges:
  "direct_distance [''v1'', ''v2''] example_distances = Inr 5000 \<and>
   end_to_end_rate depth QuantumNetwork_init [''v1'', ''v2''] example_distances = None"
  by (simp add: e2e_not_single direct_distance_def list_get_def dict_get_def
      example_distances_def)

text \<open>
  Claim C2 says that the recursion terminates with a rate on every path of at least two
  nodes. In the code no such path gets a result, whatever the depth available.
\<close>

theorem end_to_end_rate_never_terminates:
  "end_to_end_rate depth net (a # b # rest) distances = None"
  by (simp add: e2e_not_single)


section \<open>Properties of the path enumeration\<close>

lemma via_paths_Nil: "via_paths distances nodes visited [] src dst = {}"
  by (simp add: via_paths_def)

lemma via_paths_Cons:
  "via_paths distances nodes visited (nb # rest) src dst =
     (if nb \<notin> visited \<and> has_edge distances src nb
      then (#) src ` simple_paths distances nodes (insert nb visited) nb dst else {})
     \<union> via_paths distances nodes visited rest src dst"
  unfolding via_paths_def by auto

lemma via_paths_all:
  assumes "src \<noteq> dst" and "src \<in> visited"
  shows "via_paths distances nodes visited nodes src dst = simple_paths distances nodes visited src dst"
proof (intro set_eqI iffI)
  fix p assume "p \<in> via_paths distances nodes visited nodes src dst"
  then obtain q nb where p: "p = src # q" and nb: "nb \<in> set nodes" "nb \<notin> visited"
    "has_edge distances src nb" and q: "q \<in> simple_paths distances nodes (insert nb visited) nb dst"
    unfolding via_paths_def by blast
  from q obtain r where qr: "q = nb # r" unfolding simple_paths_def by (cases q) auto
  from q qr have r: "last q = dst" "distinct q" "set r \<subseteq> set nodes"
    "set r \<inter> insert nb visited = {}" "edges_ok distances q"
    unfolding simple_paths_def by auto
  have "src \<notin> set q" using qr r(4) nb(2) assms(2) by auto
  then show "p \<in> simple_paths distances nodes visited src dst"
    unfolding simple_paths_def using p qr r nb by auto
next
  fix p assume "p \<in> simple_paths distances nodes visited src dst"
  then have h: "p \<noteq> []" "hd p = src" "last p = dst" "distinct p" "set (tl p) \<subseteq> set nodes"
    "set (tl p) \<inter> visited = {}" "edges_ok distances p"
    unfolding simple_paths_def by auto
  from h(1,2) obtain q where p: "p = src # q" by (cases p) auto
  with h(3) assms(1) obtain nb r where q: "q = nb # r" by (cases q) auto
  have "q \<in> simple_paths distances nodes (insert nb visited) nb dst"
    unfolding simple_paths_def using h p q by auto
  moreover have "nb \<in> set nodes" "nb \<notin> visited" "has_edge distances src nb"
    using h p q by auto
  ultimately show "p \<in> via_paths distances nodes visited nodes src dst"
    unfolding via_paths_def using p by blast
qed

lemma simple_paths_same: "simple_paths distances nodes avoid dst dst = {[dst]}"
proof (intro set_eqI iffI)
  fix p assume "p \<in> simple_paths distances nodes avoid dst dst"
  then have h: "p \<noteq> []" "hd p = dst" "last p = dst" "distinct p"
    unfolding simple_paths_def by auto
  then obtain q where p: "p = dst # q" by (cases p) auto
  have "q = []"
  proof (rule ccontr)
    assume "q \<noteq> []"
    then have "last p \<in> set q" using p by auto
    with h(3,4) p show False by auto
  qed
  with p show "p \<in> {[dst]}" by simp
next
  fix p assume "p \<in> {[dst]}"
  then show "p \<in> simple_paths distances nodes avoid dst dst"
    unfolding simple_paths_def by auto
qed

lemma has_edge_dict:
  "dict_get distances src = Inr row \<Longrightarrow> has_edge distances src nb = (row nb \<noteq> None)"
  by (auto simp: dict_get_def has_edge_def split: option.splits)

lemma enumerate_set:
  "enumerate_paths src dst nodes distances visited_arg = Inr ps \<Longrightarrow>
     set ps = simple_paths distances nodes
                (insert src (case visited_arg of None \<Rightarrow> {} | Some s \<Rightarrow> s)) src dst"
  "enumerate_neighbors src dst nodes distances visited rest = Inr ps \<Longrightarrow>
     set ps = via_paths distances nodes visited rest src dst"
proof (induction src dst nodes distances visited_arg and src dst nodes distances visited rest
       arbitrary: ps and ps rule: enumerate_paths_enumerate_neighbors.induct)
  case (1 src dst nodes distances visited_arg)
  let ?visited = "insert src (case visited_arg of None \<Rightarrow> {} | Some s \<Rightarrow> s)"
  show ?case
  proof (cases "src = dst")
    case True
    with "1.prems" have "ps = [[dst]]" by (simp add: enumerate_paths.simps Let_def)
    with True show ?thesis by (simp add: simple_paths_same)
  next
    case False
    with "1.prems" have "enumerate_neighbors src dst nodes distances ?visited nodes = Inr ps"
      by (simp add: enumerate_paths.simps Let_def)
    with False have "set ps = via_paths distances nodes ?visited nodes src dst"
      by (intro "1.IH") auto
    with False show ?thesis by (simp add: via_paths_all)
  qed
next
  case (2 src dst nodes distances visited)
  then show ?case by (simp add: via_paths_Nil)
next
  case (3 src dst nodes distances visited neighbor rest)
  show ?case
  proof (cases "neighbor \<in> visited")
    case True
    with "3.prems" have "enumerate_neighbors src dst nodes distances visited rest = Inr ps"
      by simp
    with True have "set ps = via_paths distances nodes visited rest src dst"
      by (intro "3.IH"(1))
    with True show ?thesis by (simp add: via_paths_Cons)
  next
    case nv: False
    with "3.prems" obtain row where row: "dict_get distances src = Inr row"
      by (auto split: sum.splits)
    show ?thesis
    proof (cases "row neighbor = None")
      case True
      with "3.prems" nv row have "enumerate_neighbors src dst nodes distances visited rest = Inr ps"
        by simp
      with nv row True have "set ps = via_paths distances nodes visited rest src dst"
        by (intro "3.IH"(2))
      with True row show ?thesis by (simp add: via_paths_Cons has_edge_dict)
    next
      case False
      with "3.prems" nv row obtain subpaths paths where
        sub: "enumerate_paths neighbor dst nodes distances (Some visited) = Inr subpaths" and
        pa: "enumerate_neighbors src dst nodes distances visited rest = Inr paths" and
        ps: "ps = map ((#) src) subpaths @ paths"
        by (auto split: sum.splits)
      have "set subpaths = simple_paths distances nodes (insert neighbor visited) neighbor dst"
        using "3.IH"(3) [OF nv row False sub] by simp
      moreover have "set paths = via_paths distances nodes visited rest src dst"
        using nv row False sub pa by (intro "3.IH"(4))
      ultimately show ?thesis using ps nv row False
        by (simp add: via_paths_Cons has_edge_dict)
    qed
  qed
qed

lemma hd_simple_paths: "p \<in> simple_paths distances nodes avoid src dst \<Longrightarrow> p \<noteq> [] \<and> hd p = src"
  by (simp add: simple_paths_def)

lemma via_paths_second:
  "p \<in> via_paths distances nodes visited rest src dst \<Longrightarrow> \<exists>nb r. p = src # nb # r \<and> nb \<in> set rest"
proof -
  assume "p \<in> via_paths distances nodes visited rest src dst"
  then obtain q nb where p: "p = src # q" "nb \<in> set rest"
    "q \<in> simple_paths distances nodes (insert nb visited) nb dst"
    unfolding via_paths_def by blast
  from p(3) obtain r where "q = nb # r" using hd_simple_paths [OF p(3)] by (cases q) auto
  with p show ?thesis by blast
qed

lemma enumerate_distinct:
  "enumerate_paths src dst nodes distances visited_arg = Inr ps \<Longrightarrow> distinct nodes \<Longrightarrow>
     distinct ps"
  "enumerate_neighbors src dst nodes distances visited rest = Inr ps \<Longrightarrow> distinct nodes \<Longrightarrow>
     distinct rest \<Longrightarrow> distinct ps"
proof (induction src dst nodes distances visited_arg and src dst nodes distances visited rest
       arbitrary: ps and ps rule: enumerate_paths_enumerate_neighbors.induct)
  case (1 src dst nodes distances visited_arg)
  let ?visited = "insert src (case visited_arg of None \<Rightarrow> {} | Some s \<Rightarrow> s)"
  show ?case
  proof (cases "src = dst")
    case True
    with "1.prems" have "ps = [[dst]]" by (simp add: enumerate_paths.simps Let_def)
    then show ?thesis by simp
  next
    case False
    with "1.prems" have "enumerate_neighbors src dst nodes distances ?visited nodes = Inr ps"
      by (simp add: enumerate_paths.simps Let_def)
    from "1.IH" [OF refl False this "1.prems"(2) "1.prems"(2)] show ?thesis .
  qed
next
  case (2 src dst nodes distances visited)
  then show ?case by simp
next
  case (3 src dst nodes distances visited neighbor rest)
  from "3.prems" have dr: "distinct rest" "neighbor \<notin> set rest" by auto
  show ?case
  proof (cases "neighbor \<in> visited")
    case True
    with "3.prems" have "enumerate_neighbors src dst nodes distances visited rest = Inr ps"
      by simp
    from "3.IH"(1) [OF True this "3.prems"(2) dr(1)] show ?thesis .
  next
    case nv: False
    with "3.prems" obtain row where row: "dict_get distances src = Inr row"
      by (auto split: sum.splits)
    show ?thesis
    proof (cases "row neighbor = None")
      case True
      with "3.prems" nv row have "enumerate_neighbors src dst nodes distances visited rest = Inr ps"
        by simp
      from "3.IH"(2) [OF nv row True this "3.prems"(2) dr(1)] show ?thesis .
    next
      case False
      with "3.prems" nv row obtain subpaths paths where
        sub: "enumerate_paths neighbor dst nodes distances (Some visited) = Inr subpaths" and
        pa: "enumerate_neighbors src dst nodes distances visited rest = Inr paths" and
        ps: "ps = map ((#) src) subpaths @ paths"
        by (auto split: sum.splits)
      have d1: "distinct subpaths"
        using "3.IH"(3) [OF nv row False sub "3.prems"(2)] .
      have d2: "distinct paths"
        using "3.IH"(4) [OF nv row False sub pa "3.prems"(2) dr(1)] .
      have s1: "set subpaths = simple_paths distances nodes (insert neighbor visited) neighbor dst"
        using enumerate_set(1) [OF sub] by simp
      have s2: "set paths = via_paths distances nodes visited rest src dst"
        using enumerate_set(2) [OF pa] .
      have "(#) src ` set subpaths \<inter> set paths = {}"
      proof (rule ccontr)
        assume "(#) src ` set subpaths \<inter> set paths \<noteq> {}"
        then obtain q where q: "q \<in> set subpaths" "src # q \<in> set paths" by auto
        from q(1) s1 have "q \<noteq> [] \<and> hd q = neighbor" by (simp add: hd_simple_paths)
        moreover from q(2) s2 have "src # q \<in> via_paths distances nodes visited rest src dst"
          by simp
        then have "\<exists>nb r. src # q = src # nb # r \<and> nb \<in> set rest"
          by (rule via_paths_second)
        ultimately show False using dr(2) by auto
      qed
      with d1 d2 ps show ?thesis by (simp add: distinct_map)
    qed
  qed
qed

lemma enumerate_total:
  "insert src (set nodes) \<subseteq> dom distances \<Longrightarrow>
     \<exists>ps. enumerate_paths src dst nodes distances visited_arg = Inr ps"
  "insert src (set nodes) \<subseteq> dom distances \<Longrightarrow> set rest \<subseteq> set nodes \<Longrightarrow>
     \<exists>ps. enumerate_neighbors src dst nodes distances visited rest = Inr ps"
proof (induction src dst nodes distances visited_arg and src dst nodes distances visited rest
       rule: enumerate_paths_enumerate_neighbors.induct)
  case (1 src dst nodes distances visited_arg)
  then show ?case by (cases "src = dst") (simp_all add: enumerate_paths.simps Let_def)
next
  case (2 src dst nodes distances visited)
  show ?case by simp
next
  case (3 src dst nodes distances visited neighbor rest)
  from "3.prems" obtain row where row: "dict_get distances src = Inr row"
    by (auto simp: dict_get_def)
  from "3.prems" have sub: "insert neighbor (set nodes) \<subseteq> dom distances" "set rest \<subseteq> set nodes"
    by auto
  show ?case
  proof (cases "neighbor \<in> visited")
    case True
    with "3.IH"(1) "3.prems" sub show ?thesis by simp
  next
    case nv: False
    show ?thesis
    proof (cases "row neighbor = None")
      case True
      with "3.IH"(2) [OF nv row True] "3.prems" sub nv row show ?thesis by simp
    next
      case False
      from "3.IH"(3) [OF nv row False sub(1)] obtain subpaths where
        s: "enumerate_paths neighbor dst nodes distances (Some visited) = Inr subpaths" by blast
      from "3.IH"(4) [OF nv row False s "3.prems"(1) sub(2)] obtain paths where
        "enumerate_neighbors src dst nodes distances visited rest = Inr paths" by blast
      with s nv row False show ?thesis by simp
    qed
  qed
qed

lemma simple_paths_from_src:
  "simple_paths distances nodes {src} src dst =
     {p. p \<noteq> [] \<and> hd p = src \<and> last p = dst \<and> distinct p \<and>
         set (tl p) \<subseteq> set nodes \<and> edges_ok distances p}"
proof -
  have "set (tl p) \<inter> {src} = {}" if "p \<noteq> []" "hd p = src" "distinct p" for p :: "'a list"
    using that by (cases p) auto
  then show ?thesis unfolding simple_paths_def by blast
qed

text \<open>
  Claim C7: for a collection of distinct nodes, the outermost call of
  \<open>enumerate_paths\<close> returns a list without duplicates whose elements are exactly the
  simple paths from the source to the destination along entries of the distance graph
  (through nodes of the collection): each returned path is simple and each consecutive
  pair has an entry, and no such path is omitted. The call does return when the source
  and every node of the collection have a row in the distance graph.
\<close>

theorem enumerate_paths_exactly_simple_paths:
  assumes "distinct nodes"
  shows "(insert src (set nodes) \<subseteq> dom distances \<longrightarrow>
            (\<exists>ps. enumerate_paths src dst nodes distances None = Inr ps)) \<and>
         (\<forall>ps. enumerate_paths src dst nodes distances None = Inr ps \<longrightarrow>
            distinct ps \<and>
            set ps = {p. p \<noteq> [] \<and> hd p = src \<and> last p = dst \<and> distinct p \<and>
                         set (tl p) \<subseteq> set nodes \<and> edges_ok distances p})"
proof (intro conjI impI allI)
  assume "insert src (set nodes) \<subseteq> dom distances"
  then show "\<exists>ps. enumerate_paths src dst nodes distances None = Inr ps"
    by (rule enumerate_total(1))
next
  fix ps assume r: "enumerate_paths src dst nodes distances None = Inr ps"
  from enumerate_distinct(1) [OF r assms] show "distinct ps" .
  from enumerate_set(1) [OF r]
  show "set ps = {p. p \<noteq> [] \<and> hd p = src \<and> last p = dst \<and> distinct p \<and>
                     set (tl p) \<subseteq> set nodes \<and> edges_ok distances p}"
    by (simp add: simple_paths_from_src)
qed

lemma example_v1_vj:
  "enumerate_paths ''v1'' ''vj'' example_nodes example_distances None =
     Inr [[''v1'', ''v2'', ''v3'', ''vj''], [''v1'', ''v2'', ''vj'']]"
  by (simp add: enumerate_paths.simps example_nodes_def example_distances_def dict_get_def)

theorem enumerate_paths_exactly_simple_paths_witness:
  "distinct example_nodes \<and>
   insert ''v1'' (set example_nodes) \<subseteq> dom example_distances \<and>
   enumerate_paths ''v1'' ''vj'' example_nodes example_distances None =
     Inr [[''v1'', ''v2'', ''v3'', ''vj''], [''v1'', ''v2'', ''vj'']] \<and>
   {p. p \<noteq> [] \<and> hd p = ''v1'' \<and> last p = ''vj'' \<and> distinct p \<and>
       set (tl p) \<subseteq> set example_nodes \<and> edges_ok example_distances p} =
     {[''v1'', ''v2'', ''v3'', ''vj''], [''v1'', ''v2'', ''vj'']}"
proof -
  have d: "distinct example_nodes" by (simp add: example_nodes_def)
  have k: "insert ''v1'' (set example_nodes) \<subseteq> dom example_distances"
    by (simp add: example_nodes_def example_distances_def)
  from enumerate_paths_exactly_simple_paths [OF d, of "''v1''" example_distances "''vj''"]
    example_v1_vj
  have "set [[''v1'', ''v2'', ''v3'', ''vj''], [''v1'', ''v2'', ''vj'']] =
     {p. p \<noteq> [] \<and> hd p = ''v1'' \<and> last p = ''vj'' \<and> distinct p \<and>
         set (tl p) \<subseteq> set example_nodes \<and> edges_ok example_distances p}"
    by blast
  then have "{p. p \<noteq> [] \<and> hd p = ''v1'' \<and> last p = ''vj'' \<and> distinct p \<and>
         set (tl p) \<subseteq> set example_nodes \<and> edges_ok example_distances p} =
     {[''v1'', ''v2'', ''v3'', ''vj''], [''v1'', ''v2'', ''vj'']}"
    by simp
  with d k example_v1_vj show ?thesis by blast
qed

text \<open>
  Claim C10, as the code has it: a path is only extended through nodes of the supplied
  collection, so every node of a returned path other than its first node, the source,
  belongs to the collection; the source is in the path whether or not it is in the
  collection.
\<close>

theorem enumerate_paths_within_nodes:
  assumes "enumerate_paths src dst nodes distances visited_arg = Inr ps" and "p \<in> set ps"
  shows "p \<noteq> [] \<and> hd p = src \<and> set (tl p) \<subseteq> set nodes \<and> set p \<subseteq> insert src (set nodes)"
proof -
  from enumerate_set(1) [OF assms(1)] assms(2)
  have h: "p \<noteq> []" "hd p = src" "set (tl p) \<subseteq> set nodes"
    by (simp_all add: simple_paths_def)
  from h(1,2) obtain q where "p = src # q" by (cases p) auto
  with h show ?thesis by auto
qed

text \<open>
  The witness leaves v3 out of the collection: the edge from v2 to v3 is in the distance
  graph, and the only path returned is the one that does not use it.
\<close>

theorem enumerate_paths_within_nodes_witness:
  "enumerate_paths ''v1'' ''vj'' [''v1'', ''v2'', ''vj''] example_distances None =
     Inr [[''v1'', ''v2'', ''vj'']] \<and>
   has_edge example_distances ''v2'' ''v3'' \<and>
   set [''v1'', ''v2'', ''vj''] \<subseteq> insert ''v1'' (set [''v1'', ''v2'', ''vj''])"
proof -
  have r: "enumerate_paths ''v1'' ''vj'' [''v1'', ''v2'', ''vj''] example_distances None =
     Inr [[''v1'', ''v2'', ''vj'']]"
    by (simp add: enumerate_paths.simps example_distances_def dict_get_def)
  have m: "[''v1'', ''v2'', ''vj''] \<in> set [[''v1'', ''v2'', ''vj'']]" by simp
  have e: "has_edge example_distances ''v2'' ''v3''"
    by (simp add: has_edge_def example_distances_def)
  from enumerate_paths_within_nodes [OF r m] r e show ?thesis by blast
qed

text \<open>
  Claim C10 as stated (every node of every returned path is in the collection) fails
  when the source is not in the collection: here v1 is left out of it.
\<close>

theorem enumerate_paths_source_outside_nodes_counterexample:
  "enumerate_paths ''v1'' ''vj'' [''v2'', ''v3'', ''vj''] example_distances None =
     Inr [[''v1'', ''v2'', ''v3'', ''vj''], [''v1'', ''v2'', ''vj'']] \<and>
   \<not> set [''v1'', ''v2'', ''vj''] \<subseteq> set [''v2'', ''v3'', ''vj'']"
  by (simp add: enumerate_paths.simps example_distances_def dict_get_def)

section \<open>Properties of the optimal path selection\<close>

lemma best_of_first:
  "length path \<noteq> 1 \<Longrightarrow> best_of depth net distances (path # paths) best = None"
  by (cases best) (simp add: e2e_not_single)

lemma example_all_paths:
  "\<exists>ps. all_paths (combinations2 example_nodes) example_nodes example_distances =
     Inr ([''v1'', ''v2''] # ps)"
  by (simp add: enumerate_paths.simps example_nodes_def example_distances_def dict_get_def)

text \<open>
  Without any edge there is no candidate, and the search returns no path and rate 0 when
  every node has an (empty) row; with an empty distance dictionary the first lookup
  \<open>distances[src]\<close> raises KeyError.
\<close>

lemma find_optimal_path_isolated:
  "find_optimal_path depth net [''v1'', ''v2'', ''v3'']
     [''v1'' \<mapsto> Map.empty, ''v2'' \<mapsto> Map.empty, ''v3'' \<mapsto> Map.empty] = Some (Inr (None, 0))"
  by (simp add: find_optimal_path_def enumerate_paths.simps dict_get_def)

lemma find_optimal_path_no_rows:
  "find_optimal_path depth net [''v1'', ''v2'', ''v3''] Map.empty = Some (Inl KeyError)"
  by (simp add: find_optimal_path_def enumerate_paths.simps dict_get_def)

text \<open>
  Claim C8 says that \<open>find_optimal_path\<close> returns the candidate of greatest rate. In the
  code the first candidate of the example run, the path v1, v2, is scored by
  \<open>end_to_end_rate\<close>, which never returns: the search yields no result at any depth.
\<close>

theorem find_optimal_path_example_diverges:
  "find_optimal_path depth QuantumNetwork_init example_nodes example_distances = None"
proof -
  obtain ps where
    "all_paths (combinations2 example_nodes) example_nodes example_distances =
       Inr ([''v1'', ''v2''] # ps)"
    using example_all_paths by blast
  then show ?thesis by (simp add: find_optimal_path_def best_of_first del: best_of.simps)
qed

end
